theory Spec2Isabelle
  imports Main "HOL-Library.AList"
begin

section \<open>Deterministic mutation noise (uber\_ga/noise.py)\<close>

text \<open>
  The module has two classes: \<open>NoiseSource\<close>, a seeded table of normal values with a
  cache of partial sums, and \<open>NoiseAdder\<close>, a context manager that adds a noise vector
  to a list of TensorFlow variables and writes the old values back on exit.

  The embedding is a state-passing one. Every method takes the object state and returns
  a pair: the outcome (\<open>Inl\<close> an exception, \<open>Inr\<close> the returned value) and the state
  the object is left in, so that what an exception leaves behind is part of the model.
  Python integers are \<open>int\<close>; one-dimensional arrays are lists.
\<close>

subsection \<open>What numpy contributes\<close>

text \<open>
  The arithmetic of the array elements (float32), the scaling by a Python number and the
  two seeded generators are numpy's, not this module's. They are taken as a parameter
  \<open>N\<close> of the model, a record of functions, and nothing is assumed about them unless a
  theorem says so: addition need not be associative, and zero need not be neutral.

  \<^item> \<open>fadd\<close>, \<open>fmul\<close>, \<open>fzero\<close>: element addition, element times scale, the element
    that \<open>np.zeros\<close> fills in and that the integer \<open>0\<close> becomes when added to an array;
  \<^item> \<open>gauss seed n i\<close>: the \<open>i\<close>-th of the \<open>n\<close> values of
    \<open>RandomState(seed).normal(size=n).astype('float32')\<close>;
  \<^item> \<open>uniform seed high n i\<close>: the \<open>i\<close>-th of the \<open>n\<close> draws of
    \<open>RandomState(seed).randint(0, high=high, size=n)\<close>; the model uses it modulo
    \<open>high\<close>, which is all that numpy promises about a draw (it is below \<open>high\<close>);
  \<^item> \<open>prod_gen dims\<close>: the number that \<open>np.prod\<close> makes of a generator yielding
    \<open>dims\<close>, or the exception raised by it or by adding its result to an integer.
    numpy itself has no case for a generator in \<open>np.prod\<close> (only \<open>np.sum\<close> has one):
    the generator becomes a 0-d object array, the reduction returns its one element, the
    generator, and \<open>0 + generator\<close> raises TypeError. \<open>failing_numpy\<close> below has this
    \<open>prod_gen\<close>; \<open>int_numpy\<close> has the product that the line is written for.

  That a seeded \<open>RandomState\<close> is a function of its seed is numpy's contract and is
  what makes these fields functions.
\<close>

datatype error = ValueError | TypeError | InvalidArgumentError

record ('v, 's) numpy =
  fadd :: "'v \<Rightarrow> 'v \<Rightarrow> 'v"
  fmul :: "'v \<Rightarrow> 's \<Rightarrow> 'v"
  fzero :: 'v
  gauss :: "int \<Rightarrow> nat \<Rightarrow> nat \<Rightarrow> 'v"
  uniform :: "int \<Rightarrow> nat \<Rightarrow> nat \<Rightarrow> nat \<Rightarrow> nat"
  prod_gen :: "nat list \<Rightarrow> error + nat"

text \<open>\<open>np.random.RandomState(seed=seed)\<close> accepts an integer seed from 0 to \<open>2^32 - 1\<close>
  and raises ValueError otherwise.\<close>

definition valid_seed :: "int \<Rightarrow> bool" where
  "valid_seed seed = (0 \<le> seed \<and> seed < 2 ^ 32)"

text \<open>\<open>state.normal(size=size).astype('float32')\<close>: a negative size is a ValueError,
  size 0 is an empty array.\<close>

definition normal :: "('v, 's) numpy \<Rightarrow> int \<Rightarrow> int \<Rightarrow> error + 'v list" where
  "normal N seed sz =
     (if sz < 0 then Inl ValueError
      else Inr (map (gauss N seed (nat sz)) [0..<nat sz]))"

text \<open>\<open>state.randint(0, high=high, size=size)\<close>: a negative size is a ValueError; size 0
  gives an empty array before the bounds are looked at (numpy 1.17 and later); otherwise
  an empty range (\<open>high \<le> 0\<close>) is a ValueError.\<close>

definition randint :: "('v, 's) numpy \<Rightarrow> int \<Rightarrow> nat \<Rightarrow> int \<Rightarrow> error + nat list" where
  "randint N seed high sz =
     (if sz < 0 then Inl ValueError
      else if sz = 0 then Inr []
      else if high = 0 then Inl ValueError
      else Inr (map (\<lambda>i. uniform N seed high (nat sz) i mod high) [0..<nat sz]))"

text \<open>\<open>np.zeros(size, dtype='float32')\<close>.\<close>

definition zeros :: "('v, 's) numpy \<Rightarrow> int \<Rightarrow> error + 'v list" where
  "zeros N sz = (if sz < 0 then Inl ValueError else Inr (replicate (nat sz) (fzero N)))"

text \<open>\<open>a + b\<close> on one-dimensional arrays, with numpy's broadcasting: equal lengths add
  element by element, an array of length 1 is stretched to the other's length, and any
  other pair of lengths is a ValueError.\<close>

definition np_add :: "('v, 's) numpy \<Rightarrow> 'v list \<Rightarrow> 'v list \<Rightarrow> error + 'v list" where
  "np_add N xs ys =
     (if length xs = length ys then Inr (map2 (fadd N) xs ys)
      else if length xs = 1 then Inr (map (fadd N (hd xs)) ys)
      else if length ys = 1 then Inr (map (\<lambda>x. fadd N x (hd ys)) xs)
      else Inl ValueError)"

subsection \<open>NoiseSource\<close>

type_synonym 's mutation = "int \<times> 's"

record ('v, 's) noise_source =
  noise :: "'v list"
  cache :: "('s mutation list \<times> 'v list) list"
  max_cache :: int

text \<open>\<open>NoiseSource.__init__(seed, size, max_cache)\<close>. The dict \<open>_cache\<close> is an
  association list in insertion order.\<close>

definition NoiseSource_init ::
  "('v, 's) numpy \<Rightarrow> int \<Rightarrow> int \<Rightarrow> int \<Rightarrow> error + ('v, 's) noise_source" where
  "NoiseSource_init N seed sz mc =
     (if \<not> valid_seed seed then Inl ValueError
      else case normal N seed sz of
             Inl e \<Rightarrow> Inl e
           | Inr tbl \<Rightarrow> Inr \<lparr>noise = tbl, cache = [], max_cache = mc\<rparr>)"

text \<open>\<open>NoiseSource.block(size, seed)\<close>: seed a generator, draw \<open>size\<close> indices below
  the table's length, gather. It reads the table and writes nothing.\<close>

definition block :: "('v, 's) numpy \<Rightarrow> ('v, 's) noise_source \<Rightarrow> int \<Rightarrow> int \<Rightarrow> error + 'v list" where
  "block N ns sz seed =
     (if \<not> valid_seed seed then Inl ValueError
      else case randint N seed (length (noise ns)) sz of
             Inl e \<Rightarrow> Inl e
           | Inr indices \<Rightarrow> Inr (map (\<lambda>i. noise ns ! i) indices))"

text \<open>\<open>self.block(size, seed) * scale\<close>.\<close>

definition scaled_block ::
  "('v, 's) numpy \<Rightarrow> ('v, 's) noise_source \<Rightarrow> int \<Rightarrow> 's mutation \<Rightarrow> error + 'v list" where
  "scaled_block N ns sz m =
     (case block N ns sz (fst m) of
        Inl e \<Rightarrow> Inl e
      | Inr b \<Rightarrow> Inr (map (\<lambda>x. fmul N x (snd m)) b))"

text \<open>\<open>np.sum(generator)\<close> is Python's \<open>sum\<close>: it starts from the integer 0 and adds
  the items from left to right, producing each item only when its turn comes.
  \<open>sum_blocks\<close> is the loop after the first item; \<open>prefix_sum\<close> is the whole sum over
  a chain with first pair \<open>p\<close>, whose first step \<open>0 + block\<close> adds the zero to every
  element.\<close>

fun sum_blocks ::
  "('v, 's) numpy \<Rightarrow> ('v, 's) noise_source \<Rightarrow> int \<Rightarrow> 'v list \<Rightarrow> 's mutation list
     \<Rightarrow> error + 'v list" where
  "sum_blocks N ns sz acc [] = Inr acc"
| "sum_blocks N ns sz acc (m # ms) =
     (case scaled_block N ns sz m of
        Inl e \<Rightarrow> Inl e
      | Inr b \<Rightarrow> (case np_add N acc b of
                   Inl e \<Rightarrow> Inl e
                 | Inr acc' \<Rightarrow> sum_blocks N ns sz acc' ms))"

definition prefix_sum ::
  "('v, 's) numpy \<Rightarrow> ('v, 's) noise_source \<Rightarrow> int \<Rightarrow> 's mutation \<Rightarrow> 's mutation list
     \<Rightarrow> error + 'v list" where
  "prefix_sum N ns sz p ps =
     (case scaled_block N ns sz p of
        Inl e \<Rightarrow> Inl e
      | Inr b \<Rightarrow> sum_blocks N ns sz (map (fadd N (fzero N)) b) ps)"

text \<open>\<open>NoiseSource.cumulative_block(size, mutations)\<close>. The three equations are the
  three exits of the source: the empty chain, the chain of one pair, and the chain of
  two or more, whose prefix \<open>mutations[:-1]\<close> is then not empty. The final block is
  computed before the cache is looked at, and the cache is written only after the prefix
  has been summed, so every exception leaves the cache as it was.\<close>

fun cumulative_block ::
  "('v, 's) numpy \<Rightarrow> ('v, 's) noise_source \<Rightarrow> int \<Rightarrow> 's mutation list
     \<Rightarrow> (error + 'v list) \<times> ('v, 's) noise_source" where
  "cumulative_block N ns sz [] = (zeros N sz, ns)"
| "cumulative_block N ns sz [m] = (scaled_block N ns sz m, ns)"
| "cumulative_block N ns sz (p # q # ms) =
     (case scaled_block N ns sz (last (q # ms)) of
        Inl e \<Rightarrow> (Inl e, ns)
      | Inr final_block \<Rightarrow>
          (let cache_key = p # butlast (q # ms) in
           case map_of (cache ns) cache_key of
             Some cached \<Rightarrow> (np_add N cached final_block, ns)
           | None \<Rightarrow>
               (case prefix_sum N ns sz p (butlast (q # ms)) of
                  Inl e \<Rightarrow> (Inl e, ns)
                | Inr prefix \<Rightarrow>
                    (np_add N prefix final_block,
                     ns\<lparr>cache := AList.update cache_key prefix (cache ns)\<rparr>))))"

text \<open>\<open>NoiseSource._cache_size()\<close>: the cached arrays are one-dimensional, so
  \<open>x.shape[0]\<close> is the length.\<close>

definition cache_size :: "('v, 's) noise_source \<Rightarrow> int" where
  "cache_size ns = sum_list (map (\<lambda>(k, x). int (length x)) (cache ns))"

text \<open>\<open>del self._cache[self._cache.keys()[0]]\<close>. In Python 3 \<open>dict.keys()\<close> is a key
  view, and subscripting a view raises TypeError before anything is deleted.\<close>

definition del_first_key ::
  "('v, 's) noise_source \<Rightarrow> (error + unit) \<times> ('v, 's) noise_source" where
  "del_first_key ns = (Inl TypeError, ns)"

text \<open>\<open>NoiseSource._evict_cache()\<close>: the \<open>while\<close> loop.\<close>

function evict_cache ::
  "('v, 's) noise_source \<Rightarrow> (error + unit) \<times> ('v, 's) noise_source" where
  "evict_cache ns =
     (if cache_size ns > max_cache ns
      then (case del_first_key ns of
              (Inl e, ns') \<Rightarrow> (Inl e, ns')
            | (Inr u, ns') \<Rightarrow> evict_cache ns')
      else (Inr (), ns))"
  by pat_completeness auto
termination
  by (relation "{}") (auto simp: del_first_key_def)

subsection \<open>NoiseAdder\<close>

text \<open>
  A tensor is its shape and its elements in row-major order, so that \<open>reshape\<close> leaves
  the elements as they are. The TensorFlow session is seen through the variables the
  adder was built over: \<open>store\<close> is the list of their current values, in the order of
  \<open>self._variables\<close>, and \<open>variables\<close> is the list of their static shapes
  (\<open>v.get_shape()\<close>), which are also the shapes of the placeholders made in
  \<open>__init__\<close>. \<open>world\<close> gathers what the methods of a NoiseAdder read and write:
  its own fields, the NoiseSource it was given, and the store.
\<close>

record 'v tensor =
  shape :: "nat list"
  data :: "'v list"

record ('v, 's) noise_adder =
  variables :: "nat list list"
  seeds :: "'s mutation list option"
  old_vals :: "'v tensor list option"

record ('v, 's) world =
  source :: "('v, 's) noise_source"
  adder :: "('v, 's) noise_adder"
  store :: "'v tensor list"

text \<open>\<open>NoiseAdder.__init__(sess, variables, noise)\<close>.\<close>

definition NoiseAdder_init ::
  "('v, 's) noise_source \<Rightarrow> nat list list \<Rightarrow> 'v tensor list \<Rightarrow> ('v, 's) world" where
  "NoiseAdder_init ns shapes vals =
     \<lparr>source = ns, adder = \<lparr>variables = shapes, seeds = None, old_vals = None\<rparr>,
      store = vals\<rparr>"

text \<open>\<open>NoiseAdder.seed(seeds)\<close>; it returns \<open>self\<close>.\<close>

definition NoiseAdder_seed :: "('v, 's) world \<Rightarrow> 's mutation list \<Rightarrow> ('v, 's) world" where
  "NoiseAdder_seed w sds = w\<lparr>adder := (adder w)\<lparr>seeds := Some sds\<rparr>\<rparr>"

text \<open>\<open>np.sum(np.prod(x.value for x in v.get_shape()) for v in self._variables)\<close>: the
  outer sum is Python's \<open>sum\<close> over the variables in order, and stops at the first
  item that raises.\<close>

fun sum_sizes :: "('v, 's) numpy \<Rightarrow> nat list list \<Rightarrow> error + nat" where
  "sum_sizes N [] = Inr 0"
| "sum_sizes N (sh # shs) =
     (case prod_gen N sh of
        Inl e \<Rightarrow> Inl e
      | Inr k \<Rightarrow> (case sum_sizes N shs of
                   Inl e \<Rightarrow> Inl e
                 | Inr t \<Rightarrow> Inr (k + t)))"

text \<open>\<open>chunk.reshape(shape)\<close>: a ValueError unless the chunk has as many elements as
  the shape.\<close>

definition reshape :: "'v list \<Rightarrow> nat list \<Rightarrow> error + 'v tensor" where
  "reshape xs sh =
     (if length xs = prod_list sh then Inr \<lparr>shape = sh, data = xs\<rparr> else Inl ValueError)"

text \<open>\<open>old_val + chunk\<close>, both of the shape of \<open>old_val\<close>.\<close>

definition tensor_add :: "('v, 's) numpy \<Rightarrow> 'v tensor \<Rightarrow> 'v tensor \<Rightarrow> 'v tensor" where
  "tensor_add N a b = \<lparr>shape = shape a, data = map2 (fadd N) (data a) (data b)\<rparr>"

text \<open>The loop of \<open>__enter__\<close> over \<open>self._old_vals\<close>: \<open>noise[:sub_size]\<close> is
  \<open>take\<close>, \<open>noise[sub_size:]\<close> is \<open>drop\<close>, and neither raises when the vector is
  short.\<close>

fun add_noise :: "('v, 's) numpy \<Rightarrow> 'v tensor list \<Rightarrow> 'v list \<Rightarrow> error + 'v tensor list" where
  "add_noise N [] nz = Inr []"
| "add_noise N (old_val # rest) nz =
     (let sub_size = prod_list (shape old_val) in
      case reshape (take sub_size nz) (shape old_val) of
        Inl e \<Rightarrow> Inl e
      | Inr chunk \<Rightarrow>
          (case add_noise N rest (drop sub_size nz) of
             Inl e \<Rightarrow> Inl e
           | Inr new_vals \<Rightarrow> Inr (tensor_add N old_val chunk # new_vals)))"

text \<open>\<open>NoiseAdder._set_values(values)\<close>: one \<open>sess.run\<close> of all the assignments, fed
  through \<open>dict(zip(self._placeholders, values))\<close>. \<open>zip\<close> raises TypeError on
  \<open>None\<close> and stops at the shorter list. TensorFlow rejects a value of another shape
  than its placeholder before anything runs; in a run that leaves a placeholder without
  a value, the assignments that were fed are carried out before the run fails.\<close>

definition set_values ::
  "('v, 's) world \<Rightarrow> 'v tensor list option \<Rightarrow> (error + unit) \<times> ('v, 's) world" where
  "set_values w values =
     (case values of
        None \<Rightarrow> (Inl TypeError, w)
      | Some vals \<Rightarrow>
          (let phs = variables (adder w); fed = take (length phs) vals in
           if map shape fed \<noteq> take (length fed) phs then (Inl ValueError, w)
           else if length fed < length phs
           then (Inl InvalidArgumentError, w\<lparr>store := fed @ drop (length fed) (store w)\<rparr>)
           else (Inr (), w\<lparr>store := fed\<rparr>)))"

text \<open>\<open>NoiseAdder.__enter__()\<close>. A chain that was never set is \<open>None\<close>, which
  \<open>cumulative_block\<close> treats as the empty chain (\<open>not None\<close> holds).\<close>

definition chain_of :: "'s mutation list option \<Rightarrow> 's mutation list" where
  "chain_of sds = (case sds of None \<Rightarrow> [] | Some ms \<Rightarrow> ms)"

definition NoiseAdder_enter ::
  "('v, 's) numpy \<Rightarrow> ('v, 's) world \<Rightarrow> (error + unit) \<times> ('v, 's) world" where
  "NoiseAdder_enter N w =
     (case sum_sizes N (variables (adder w)) of
        Inl e \<Rightarrow> (Inl e, w)
      | Inr total_size \<Rightarrow>
          (case cumulative_block N (source w) (int total_size) (chain_of (seeds (adder w))) of
             (Inl e, src) \<Rightarrow> (Inl e, w\<lparr>source := src\<rparr>)
           | (Inr nz, src) \<Rightarrow>
               (let w1 = w\<lparr>source := src, adder := (adder w)\<lparr>old_vals := Some (store w)\<rparr>\<rparr> in
                case add_noise N (store w) nz of
                  Inl e \<Rightarrow> (Inl e, w1)
                | Inr new_vals \<Rightarrow> set_values w1 (Some new_vals))))"

text \<open>\<open>NoiseAdder.__exit__(*_)\<close>; it returns \<open>None\<close>, so an exception of the body is
  not suppressed.\<close>

definition NoiseAdder_exit :: "('v, 's) world \<Rightarrow> (error + unit) \<times> ('v, 's) world" where
  "NoiseAdder_exit w = set_values w (old_vals (adder w))"

text \<open>\<open>with adder.seed(sds): body\<close>, by the rules of the \<open>with\<close> statement: when
  \<open>__enter__\<close> raises, neither the body nor \<open>__exit__\<close> runs; otherwise \<open>__exit__\<close>
  runs whether the body returned or raised, and the outcome is the body's unless
  \<open>__exit__\<close> itself raises. The body is any function of the world that returns a value
  or raises.\<close>

definition with_noise ::
  "('v, 's) numpy \<Rightarrow> 's mutation list \<Rightarrow> (('v, 's) world \<Rightarrow> (error + 'r) \<times> ('v, 's) world)
     \<Rightarrow> ('v, 's) world \<Rightarrow> (error + 'r) \<times> ('v, 's) world" where
  "with_noise N sds body w =
     (case NoiseAdder_enter N (NoiseAdder_seed w sds) of
        (Inl e, w1) \<Rightarrow> (Inl e, w1)
      | (Inr u, w1) \<Rightarrow>
          (case body w1 of
             (r, w2) \<Rightarrow>
               (case NoiseAdder_exit w2 of
                  (Inl e, w3) \<Rightarrow> (Inl e, w3)
                | (Inr u', w3) \<Rightarrow> (r, w3))))"

subsection \<open>Sequences of calls, and an instance for evaluation\<close>

text \<open>A caller of a NoiseSource makes calls in some order; \<open>run_calls\<close> is the state
  after a list of them, whatever each returned or raised.\<close>

datatype 's call = Block int int | Cumulative int "'s mutation list" | Evict

fun perform :: "('v, 's) numpy \<Rightarrow> ('v, 's) noise_source \<Rightarrow> 's call \<Rightarrow> ('v, 's) noise_source" where
  "perform N ns (Block sz seed) = ns"
| "perform N ns (Cumulative sz ms) = snd (cumulative_block N ns sz ms)"
| "perform N ns Evict = snd (evict_cache ns)"

definition run_calls ::
  "('v, 's) numpy \<Rightarrow> ('v, 's) noise_source \<Rightarrow> 's call list \<Rightarrow> ('v, 's) noise_source" where
  "run_calls N ns cs = foldl (perform N) ns cs"

definition run_cumulative ::
  "('v, 's) numpy \<Rightarrow> ('v, 's) noise_source \<Rightarrow> (int \<times> 's mutation list) list
     \<Rightarrow> ('v, 's) noise_source" where
  "run_cumulative N ns cs = foldl (\<lambda>s (sz, ms). snd (cumulative_block N s sz ms)) ns cs"

text \<open>An instance of the numpy parameter with integer elements, on which the model can
  be evaluated: draws walk through the table from the seed.\<close>

definition int_numpy :: "(int, int) numpy" where
  "int_numpy =
     \<lparr>fadd = (+), fmul = (*), fzero = 0,
      gauss = (\<lambda>seed n i. seed + int i),
      uniform = (\<lambda>seed high n i. nat seed + i),
      prod_gen = (\<lambda>dims. Inr (prod_list dims))\<rparr>"

subsection \<open>Notions the properties are stated with\<close>

text \<open>The \<open>i\<close>-th contiguous chunk of a flat vector, for a list of shapes: it starts
  after the element counts of the shapes before \<open>i\<close> and has the element count of
  shape \<open>i\<close>.\<close>

definition noise_chunk :: "nat list list \<Rightarrow> 'v list \<Rightarrow> nat \<Rightarrow> 'v list" where
  "noise_chunk shapes nz i =
     take (prod_list (shapes ! i)) (drop (sum_list (map prod_list (take i shapes))) nz)"

text \<open>A cache is consistent for a size when every entry holds what \<open>cumulative_block\<close>
  computes for its key at that size. The empty cache is, and calls of that one size keep
  it so (\<open>cache_ok_init\<close>, \<open>cache_ok_run_cumulative\<close> below).\<close>

definition cache_ok :: "('v, 's) numpy \<Rightarrow> ('v, 's) noise_source \<Rightarrow> int \<Rightarrow> bool" where
  "cache_ok N ns sz =
     list_all (\<lambda>(k, v). k \<noteq> [] \<and> prefix_sum N ns sz (hd k) (tl k) = Inr v) (cache ns)"

text \<open>The weighted sum of a chain, as the specification words it: element \<open>i\<close> is the
  sum, from zero and from left to right, of element \<open>i\<close> of \<open>block(size, seed)\<close> times
  \<open>scale\<close> over the pairs of the chain.\<close>

definition block_values :: "('v, 's) numpy \<Rightarrow> ('v, 's) noise_source \<Rightarrow> int \<Rightarrow> int \<Rightarrow> 'v list" where
  "block_values N ns sz seed = (case block N ns sz seed of Inl e \<Rightarrow> [] | Inr b \<Rightarrow> b)"

definition weighted_sum ::
  "('v, 's) numpy \<Rightarrow> ('v, 's) noise_source \<Rightarrow> int \<Rightarrow> 's mutation list \<Rightarrow> 'v list" where
  "weighted_sum N ns sz ms =
     map (\<lambda>i. foldl (fadd N) (fzero N)
                 (map (\<lambda>m. fmul N (block_values N ns sz (fst m) ! i) (snd m)) ms))
       [0..<nat sz]"

subsection \<open>Concrete inputs\<close>

text \<open>A table of three values, \<open>NoiseSource(seed=7, size=3, max_cache=3)\<close> on
  \<open>int_numpy\<close>; the same source after \<open>cumulative_block(4, [(1, 1), (2, 1)])\<close>; and an
  adder over two variables of shape \<open>(2,)\<close>.\<close>

definition demo_source :: "(int, int) noise_source" where
  "demo_source = \<lparr>noise = [7, 8, 9], cache = [], max_cache = 3\<rparr>"

definition demo_cached :: "(int, int) noise_source" where
  "demo_cached = \<lparr>noise = [7, 8, 9], cache = [([(1, 1)], [8, 9, 7, 8])], max_cache = 3\<rparr>"

definition demo_world :: "(int, int) world" where
  "demo_world = NoiseAdder_init demo_source [[2], [2]]
     [\<lparr>shape = [2], data = [100, 200]\<rparr>, \<lparr>shape = [2], data = [300, 400]\<rparr>]"

definition demo_seeded :: "(int, int) world" where
  "demo_seeded = NoiseAdder_seed demo_world [(1, 1)]"

text \<open>\<open>demo_source\<close> after \<open>cumulative_block(1, [(1, 1), (2, 1)])\<close>.\<close>

definition demo_cached_one :: "(int, int) noise_source" where
  "demo_cached_one = \<lparr>noise = [7, 8, 9], cache = [([(1, 1)], [8])], max_cache = 3\<rparr>"

text \<open>A body that returns at once, and a body that empties the store and raises.\<close>

definition demo_return :: "(int, int) world \<Rightarrow> (error + unit) \<times> (int, int) world" where
  "demo_return w = (Inr (), w)"


definition demo_body :: "(int, int) world \<Rightarrow> (error + unit) \<times> (int, int) world" where
  "demo_body w = (Inl TypeError, w\<lparr>store := []\<rparr>)"

text \<open>numpy as it is: \<open>np.prod\<close> returns the generator it is given, and adding that to
  the integer 0 raises TypeError.\<close>

definition failing_numpy :: "(int, int) numpy" where
  "failing_numpy = int_numpy\<lparr>prod_gen := (\<lambda>dims. Inl TypeError)\<rparr>"

lemmas demo_defs = demo_world_def demo_seeded_def demo_source_def demo_cached_def
  demo_cached_one_def NoiseAdder_init_def NoiseAdder_seed_def

lemmas eval_defs = scaled_block_def block_def randint_def valid_seed_def int_numpy_def
  np_add_def prefix_sum_def zeros_def upt_conv_Cons

section \<open>Properties\<close>

subsection \<open>The demonstration inputs are reachable\<close>

lemma demo_init: "NoiseSource_init int_numpy 7 3 3 = Inr demo_source"
  by (simp add: NoiseSource_init_def valid_seed_def normal_def int_numpy_def demo_source_def
      upt_conv_Cons)

lemma demo_cached_reached:
  "cumulative_block int_numpy demo_source 4 [(1, 1), (2, 1)] = (Inr [17, 16, 15, 17], demo_cached)"
  by (simp add: demo_defs eval_defs)

lemma demo_cached_one_reached:
  "cumulative_block int_numpy demo_source 1 [(1, 1), (2, 1)] = (Inr [17], demo_cached_one)"
  by (simp add: demo_defs eval_defs)

lemma demo_enter:
  "NoiseAdder_enter int_numpy demo_seeded =
     (Inr (), demo_seeded\<lparr>adder := (adder demo_seeded)\<lparr>old_vals := Some (store demo_seeded)\<rparr>,
        store := [\<lparr>shape = [2], data = [108, 209]\<rparr>, \<lparr>shape = [2], data = [307, 408]\<rparr>]\<rparr>)"
  by (simp add: NoiseAdder_enter_def demo_defs chain_of_def eval_defs reshape_def tensor_add_def
      set_values_def Let_def)

subsection \<open>The table is never written after construction\<close>

lemma evict_cache_eq:
  "evict_cache ns = (if cache_size ns > max_cache ns then (Inl TypeError, ns) else (Inr (), ns))"
  by (simp add: del_first_key_def)

lemma noise_cumulative_block [simp]: "noise (snd (cumulative_block N ns sz ms)) = noise ns"
  by (cases "(N, ns, sz, ms)" rule: cumulative_block.cases)
     (auto split: sum.splits option.splits simp: Let_def)

lemma noise_perform [simp]: "noise (perform N ns c) = noise ns"
  by (cases c) (simp_all add: evict_cache_eq del: evict_cache.simps)

lemma noise_run_calls [simp]: "noise (run_calls N ns cs) = noise ns"
  unfolding run_calls_def by (induction cs arbitrary: ns) simp_all

lemma block_cong_noise: "noise ns = noise ns' \<Longrightarrow> block N ns sz seed = block N ns' sz seed"
  by (auto simp: block_def split: sum.splits)

lemma scaled_block_cong_noise:
  "noise ns = noise ns' \<Longrightarrow> scaled_block N ns sz m = scaled_block N ns' sz m"
  by (simp add: scaled_block_def block_cong_noise [of ns ns'])

lemma sum_blocks_cong_noise:
  "noise ns = noise ns' \<Longrightarrow> sum_blocks N ns sz acc ms = sum_blocks N ns' sz acc ms"
  by (induction ms arbitrary: acc)
     (auto simp: scaled_block_cong_noise [of ns ns'] split: sum.splits)

lemma prefix_sum_cong_noise:
  "noise ns = noise ns' \<Longrightarrow> prefix_sum N ns sz p ps = prefix_sum N ns' sz p ps"
  by (auto simp: prefix_sum_def scaled_block_cong_noise [of ns ns']
      sum_blocks_cong_noise [of ns ns'] split: sum.splits)

lemma prefix_sum_cache_update [simp]:
  "prefix_sum N (ns\<lparr>cache := c\<rparr>) sz p ps = prefix_sum N ns sz p ps"
  by (rule prefix_sum_cong_noise) simp

text \<open>
  \<^bold>\<open>C4.\<close> For a fixed table seed and table length, \<open>block(size, seed)\<close> returns the same
  outcome on every call: on two sources constructed with the same table seed and
  length (whatever their cache budget), and after any calls of \<open>block\<close>,
  \<open>cumulative_block\<close> and \<open>_evict_cache\<close> made on either in any order, \<open>block\<close>
  with the same size and seed gives the same result.
\<close>

theorem block_deterministic:
  assumes "NoiseSource_init N tseed tsz mc1 = Inr s1"
    and "NoiseSource_init N tseed tsz mc2 = Inr s2"
  shows "block N (run_calls N s1 cs1) sz seed = block N (run_calls N s2 cs2) sz seed"
proof -
  have "noise s1 = noise s2"
    using assms by (auto simp: NoiseSource_init_def split: if_splits sum.splits)
  then show ?thesis by (intro block_cong_noise) simp
qed

theorem block_deterministic_witness:
  "NoiseSource_init int_numpy 7 3 3 = Inr demo_source \<and>
   NoiseSource_init int_numpy 7 3 50 = Inr (demo_source\<lparr>max_cache := 50\<rparr>) \<and>
   block int_numpy (run_calls int_numpy demo_source [Cumulative 4 [(1, 1), (2, 1)], Evict]) 4 1 =
   block int_numpy (run_calls int_numpy (demo_source\<lparr>max_cache := 50\<rparr>) []) 4 1"
proof -
  have h1: "NoiseSource_init int_numpy 7 3 3 = Inr demo_source"
    by (simp add: NoiseSource_init_def valid_seed_def normal_def int_numpy_def demo_source_def
        upt_conv_Cons)
  have h2: "NoiseSource_init int_numpy 7 3 50 = Inr (demo_source\<lparr>max_cache := 50\<rparr>)"
    by (simp add: NoiseSource_init_def valid_seed_def normal_def int_numpy_def demo_source_def
        upt_conv_Cons)
  show ?thesis using h1 h2 block_deterministic [OF h1 h2] by simp
qed

subsection \<open>Construction\<close>

text \<open>
  \<^bold>\<open>C8\<close>, as the code has it. For a seed that \<open>RandomState\<close> accepts, constructing a
  NoiseSource with a negative length raises ValueError, and with any length of 0 or
  more it succeeds, with an empty cache and a table of exactly that many values that
  depend on the table seed and the length only. Length 0 is not rejected: it gives an
  empty table.
\<close>

theorem init_by_length:
  assumes "valid_seed seed"
  shows "(sz < 0 \<longrightarrow> NoiseSource_init N seed sz mc = Inl ValueError) \<and>
         (0 \<le> sz \<longrightarrow>
            NoiseSource_init N seed sz mc =
              Inr \<lparr>noise = map (gauss N seed (nat sz)) [0..<nat sz], cache = [],
                   max_cache = mc\<rparr> \<and>
            length (map (gauss N seed (nat sz)) [0..<nat sz]) = nat sz)"
  using assms by (simp add: NoiseSource_init_def normal_def)

theorem init_by_length_witness:
  "valid_seed 7 \<and> NoiseSource_init int_numpy 7 (- 1) 3 = Inl ValueError \<and>
   NoiseSource_init int_numpy 7 3 3 = Inr demo_source"
proof -
  have h: "valid_seed 7" by (simp add: valid_seed_def)
  show ?thesis
    using h init_by_length [OF h, of "- 1" int_numpy 3] init_by_length [OF h, of 3 int_numpy 3]
    by (simp add: int_numpy_def demo_source_def upt_conv_Cons)
qed

text \<open>The claim as the specification states it fails at length 0, where construction
  returns a source.\<close>

theorem init_zero_length:
  "NoiseSource_init int_numpy 1337 0 100 = Inr \<lparr>noise = [], cache = [], max_cache = 100\<rparr>"
  by (simp add: NoiseSource_init_def normal_def valid_seed_def)

subsection \<open>Eviction\<close>

text \<open>
  \<^bold>\<open>C9.\<close> The specification has \<open>_evict_cache\<close> remove entries until the cached element
  count is within \<open>max_cache\<close>. On a source that is over budget (four cached elements,
  a budget of three) the call raises TypeError at \<open>self._cache.keys()[0]\<close> and leaves
  the cache as it was, still over budget. Within budget the call returns and changes
  nothing (\<open>evict_cache_eq\<close>).
\<close>

theorem evict_over_budget_raises:
  "cache_size demo_cached = 4 \<and> max_cache demo_cached = 3 \<and>
   evict_cache demo_cached = (Inl TypeError, demo_cached)"
  by (simp add: evict_cache_eq cache_size_def demo_cached_def del: evict_cache.simps)

subsection \<open>What the cache holds\<close>

lemma update_absent: "map_of al k = None \<Longrightarrow> AList.update k v al = al @ [(k, v)]"
  by (induction al) (auto split: if_splits)

lemma cache_cumulative_block_ext:
  "\<exists>ext. cache (snd (cumulative_block N ns sz ms)) = cache ns @ ext"
  by (cases "(N, ns, sz, ms)" rule: cumulative_block.cases)
     (auto split: sum.splits option.splits simp: Let_def update_absent)

lemma cache_run_cumulative_ext:
  "\<exists>ext. cache (run_cumulative N ns cs) = cache ns @ ext"
  unfolding run_cumulative_def
proof (induction cs arbitrary: ns)
  case Nil
  then show ?case by simp
next
  case (Cons c cs)
  obtain sz ms where c: "c = (sz, ms)" by (cases c)
  let ?ns' = "snd (cumulative_block N ns sz ms)"
  obtain e1 where e1: "cache ?ns' = cache ns @ e1"
    using cache_cumulative_block_ext by blast
  obtain e2 where
    "cache (foldl (\<lambda>s (sz, ms). snd (cumulative_block N s sz ms)) ?ns' cs) = cache ?ns' @ e2"
    using Cons.IH by blast
  then show ?case using e1 c by simp
qed

lemma cumulative_block_short: "length ms \<le> 1 \<Longrightarrow> snd (cumulative_block N ns sz ms) = ns"
  by (cases "(N, ns, sz, ms)" rule: cumulative_block.cases) auto

lemma cumulative_block_cached:
  "map_of (cache ns) (butlast ms) \<noteq> None \<Longrightarrow> snd (cumulative_block N ns sz ms) = ns"
  by (cases "(N, ns, sz, ms)" rule: cumulative_block.cases)
     (auto split: sum.splits option.splits if_splits simp: Let_def)

text \<open>
  \<^bold>\<open>C10.\<close> \<open>cumulative_block\<close> never removes or overwrites a cache entry. After any
  sequence of \<open>cumulative_block\<close> calls the cache is the old cache with entries added
  at the end, and every key that was cached still maps to the same value; a call with an
  empty or one-pair chain leaves the source unchanged; and so does a call whose prefix is
  already cached.
\<close>

theorem cache_only_grows:
  "(\<exists>ext. cache (run_cumulative N ns cs) = cache ns @ ext) \<and>
   (\<forall>k v. map_of (cache ns) k = Some v \<longrightarrow>
      map_of (cache (run_cumulative N ns cs)) k = Some v) \<and>
   (length ms \<le> 1 \<longrightarrow> snd (cumulative_block N ns sz ms) = ns) \<and>
   (map_of (cache ns) (butlast ms) \<noteq> None \<longrightarrow> snd (cumulative_block N ns sz ms) = ns)"
proof -
  obtain ext where ext: "cache (run_cumulative N ns cs) = cache ns @ ext"
    using cache_run_cumulative_ext by blast
  have "map_of (cache (run_cumulative N ns cs)) k = Some v"
    if "map_of (cache ns) k = Some v" for k v
    using that by (simp add: ext map_add_Some_iff)
  then show ?thesis
    using ext cumulative_block_short cumulative_block_cached by blast
qed

theorem cache_only_grows_witness:
  "map_of (cache demo_cached) [(1, 1)] = Some [8, 9, 7, 8] \<and>
   map_of (cache (run_cumulative int_numpy demo_cached
                    [(4, [(1, 1), (2, 1)]), (4, [(2, 1), (3, 1)])]))
     [(1, 1)] = Some [8, 9, 7, 8] \<and>
   snd (cumulative_block int_numpy demo_cached 4 [(5, 1)]) = demo_cached \<and>
   snd (cumulative_block int_numpy demo_cached 4 [(1, 1), (5, 1)]) = demo_cached"
proof -
  have h: "map_of (cache demo_cached) [(1, 1)] = Some [8, 9, 7, 8]"
    by (simp add: demo_cached_def)
  have l: "length [(5::int, 1::int)] \<le> 1" by simp
  have c: "map_of (cache demo_cached) (butlast [(1, 1), (5, 1)]) \<noteq> None"
    by (simp add: demo_cached_def)
  show ?thesis
    using h l c
      cache_only_grows [of int_numpy demo_cached "[(4, [(1, 1), (2, 1)]), (4, [(2, 1), (3, 1)])]"
        "[(5, 1)]" 4]
      cache_only_grows [of int_numpy demo_cached "[]" "[(1, 1), (5, 1)]" 4]
    by blast
qed

subsection \<open>Lengths and exceptions of cumulative\_block\<close>

lemma block_length: "block N ns sz seed = Inr b \<Longrightarrow> length b = nat sz"
  by (auto simp: block_def randint_def split: if_splits)

lemma scaled_block_length: "scaled_block N ns sz m = Inr b \<Longrightarrow> length b = nat sz"
  by (auto simp: scaled_block_def split: sum.splits dest: block_length)

lemma np_add_length:
  "np_add N xs ys = Inr zs \<Longrightarrow> length zs = (if length xs = 1 then length ys else length xs)"
  by (auto simp: np_add_def split: if_splits)

lemma sum_blocks_length:
  "sum_blocks N ns sz acc ms = Inr r \<Longrightarrow> length acc = nat sz \<Longrightarrow> length r = nat sz"
proof (induction ms arbitrary: acc)
  case Nil
  then show ?case by simp
next
  case (Cons m ms)
  from Cons.prems(1) obtain b acc' where
    b: "scaled_block N ns sz m = Inr b" and a: "np_add N acc b = Inr acc'" and
    r: "sum_blocks N ns sz acc' ms = Inr r"
    by (auto split: sum.splits)
  have "length acc' = nat sz"
    using np_add_length [OF a] scaled_block_length [OF b] Cons.prems(2) by (simp split: if_splits)
  then show ?case using Cons.IH [OF r] by simp
qed

lemma prefix_sum_length: "prefix_sum N ns sz p ps = Inr r \<Longrightarrow> length r = nat sz"
  by (auto simp: prefix_sum_def split: sum.splits dest!: scaled_block_length
      intro: sum_blocks_length)

lemma block_error: "block N ns sz seed = Inl e \<Longrightarrow> e = ValueError"
  by (auto simp: block_def randint_def split: if_splits)

lemma scaled_block_error: "scaled_block N ns sz m = Inl e \<Longrightarrow> e = ValueError"
  by (auto simp: scaled_block_def split: sum.splits dest: block_error)

lemma np_add_error: "np_add N xs ys = Inl e \<Longrightarrow> e = ValueError"
  by (auto simp: np_add_def split: if_splits)

lemma sum_blocks_error: "sum_blocks N ns sz acc ms = Inl e \<Longrightarrow> e = ValueError"
  by (induction ms arbitrary: acc)
     (auto split: sum.splits dest: scaled_block_error np_add_error)

lemma prefix_sum_error: "prefix_sum N ns sz p ps = Inl e \<Longrightarrow> e = ValueError"
  by (auto simp: prefix_sum_def split: sum.splits dest: scaled_block_error sum_blocks_error)

lemma cumulative_block_error: "fst (cumulative_block N ns sz ms) = Inl e \<Longrightarrow> e = ValueError"
  by (cases "(N, ns, sz, ms)" rule: cumulative_block.cases)
     (auto simp: zeros_def Let_def split: sum.splits option.splits if_splits
        dest: scaled_block_error np_add_error prefix_sum_error)

lemma cumulative_block_result_length:
  assumes "fst (cumulative_block N ns sz ms) = Inr v"
  shows "length v = nat sz \<or>
         (sz = 1 \<and> (\<exists>c. map_of (cache ns) (butlast ms) = Some c \<and> length v = length c))"
proof (cases "(N, ns, sz, ms)" rule: cumulative_block.cases)
  case (1 N' ns' sz')
  then show ?thesis using assms by (auto simp: zeros_def split: if_splits)
next
  case (2 N' ns' sz' m)
  then show ?thesis using assms by (auto dest: scaled_block_length)
next
  case (3 N' ns' sz' p q ms')
  then have ms: "ms = p # q # ms'" by simp
  from assms ms obtain fb where fb: "scaled_block N ns sz (last (q # ms')) = Inr fb"
    by (auto split: sum.splits)
  have lfb: "length fb = nat sz" using fb by (rule scaled_block_length)
  have key: "butlast ms = p # butlast (q # ms')" using ms by simp
  show ?thesis
  proof (cases "map_of (cache ns) (p # butlast (q # ms'))")
    case None
    with assms ms fb obtain pr where pr: "prefix_sum N ns sz p (butlast (q # ms')) = Inr pr"
      and v: "np_add N pr fb = Inr v"
      by (auto simp: Let_def split: sum.splits)
    show ?thesis
      using np_add_length [OF v] prefix_sum_length [OF pr] lfb by (simp split: if_splits)
  next
    case (Some c)
    with assms ms fb have v: "np_add N c fb = Inr v" by (auto simp: Let_def)
    have "length v = nat sz \<or> (length fb = 1 \<and> length v = length c)"
      using v lfb by (auto simp: np_add_def split: if_splits)
    moreover have "sz = 1" if "length fb = 1" using that lfb by simp
    ultimately show ?thesis using Some key by auto
  qed
qed

text \<open>
  \<^bold>\<open>C5\<close>, as the code has it. There is no check of the size against the cache and no
  ConfigError: the cache is keyed by the prefix alone. A call of \<open>cumulative_block\<close>
  either raises ValueError, or returns a vector of the requested size, or, when the
  requested size is 1 and the prefix is already cached, returns a vector that has the
  length of the cached one.
\<close>

theorem cumulative_block_size:
  "(fst (cumulative_block N ns sz ms) = Inl e \<longrightarrow> e = ValueError) \<and>
   (fst (cumulative_block N ns sz ms) = Inr v \<longrightarrow>
      length v = nat sz \<or>
      (sz = 1 \<and> (\<exists>c. map_of (cache ns) (butlast ms) = Some c \<and> length v = length c)))"
  using cumulative_block_error cumulative_block_result_length by blast

theorem cumulative_block_size_witness:
  "fst (cumulative_block int_numpy demo_cached (- 1) []) = Inl ValueError \<and>
   fst (cumulative_block int_numpy demo_cached 4 [(1, 1), (2, 1)]) = Inr [17, 16, 15, 17] \<and>
   length [17, 16, 15, 17 :: int] = nat 4"
proof -
  have a: "fst (cumulative_block int_numpy demo_cached (- 1) []) = Inl ValueError"
    by (simp add: zeros_def)
  have b: "fst (cumulative_block int_numpy demo_cached 4 [(1, 1), (2, 1)]) = Inr [17, 16, 15, 17]"
    by (simp add: demo_defs eval_defs)
  show ?thesis
    using a b cumulative_block_size [of int_numpy demo_cached "- 1" "[]" ValueError "[]"]
      cumulative_block_size [of int_numpy demo_cached 4 "[(1, 1), (2, 1)]" ValueError
        "[17, 16, 15, 17]"]
    by simp
qed

text \<open>The claim as the specification states it fails when one prefix is asked for with
  size 4 and then with size 1: the second call returns four elements, silently.\<close>

theorem size_mixing_returns_wrong_length:
  "fst (cumulative_block int_numpy
          (snd (cumulative_block int_numpy demo_source 4 [(1, 1), (2, 1)]))
          1 [(1, 1), (5, 2)]) = Inr [26, 27, 25, 26]"
  unfolding demo_cached_reached snd_conv
  by (simp add: demo_cached_def scaled_block_def block_def randint_def
      valid_seed_def int_numpy_def np_add_def upt_conv_Cons)

subsection \<open>Consistent caches\<close>

lemma cache_ok_lookup:
  "cache_ok N ns sz \<Longrightarrow> map_of (cache ns) (p # ps) = Some c \<Longrightarrow> prefix_sum N ns sz p ps = Inr c"
  by (auto simp: cache_ok_def list_all_iff dest!: map_of_SomeD)


lemma cache_ok_init: "NoiseSource_init N seed tsz mc = Inr s \<Longrightarrow> cache_ok N s sz"
  by (auto simp: NoiseSource_init_def cache_ok_def split: if_splits sum.splits)





lemma noise_run_cumulative [simp]: "noise (run_cumulative N ns cs) = noise ns"
  unfolding run_cumulative_def by (induction cs arbitrary: ns) auto




subsection \<open>Additivity\<close>

lemma map_by_index: "length xs = n \<Longrightarrow> map f xs = map (\<lambda>i. f (xs ! i)) [0..<n]"
  by (auto intro: nth_equalityI)

lemma scaled_block_valid:
  assumes "0 \<le> sz" and "noise ns \<noteq> []" and "valid_seed (fst m)"
  shows "scaled_block N ns sz m =
           Inr (map (\<lambda>i. fmul N (block_values N ns sz (fst m) ! i) (snd m)) [0..<nat sz])"
proof -
  have "\<exists>b. block N ns sz (fst m) = Inr b"
    using assms by (cases "sz = 0") (simp_all add: block_def randint_def)
  then obtain b where b: "block N ns sz (fst m) = Inr b" ..
  have "length b = nat sz" using b by (rule block_length)
  then have "map (\<lambda>x. fmul N x (snd m)) b = map (\<lambda>i. fmul N (b ! i) (snd m)) [0..<nat sz]"
    by (rule map_by_index)
  then show ?thesis
    using b by (simp add: scaled_block_def block_values_def)
qed

lemma np_add_same_length:
  "length xs = n \<Longrightarrow> length ys = n \<Longrightarrow>
   np_add N xs ys = Inr (map (\<lambda>i. fadd N (xs ! i) (ys ! i)) [0..<n])"
  by (auto simp: np_add_def intro: nth_equalityI)

lemma sum_blocks_valid:
  assumes "0 \<le> sz" and "noise ns \<noteq> []"
  shows "\<forall>m \<in> set ms. valid_seed (fst m) \<Longrightarrow> length acc = nat sz \<Longrightarrow>
         sum_blocks N ns sz acc ms =
           Inr (map (\<lambda>i. foldl (fadd N) (acc ! i)
                       (map (\<lambda>m. fmul N (block_values N ns sz (fst m) ! i) (snd m)) ms))
                  [0..<nat sz])"
proof (induction ms arbitrary: acc)
  case Nil
  have "map (\<lambda>i. acc ! i) [0..<length acc] = acc" by (rule map_nth)
  then show ?case using Nil.prems(2) by simp
next
  case (Cons m ms)
  let ?t = "\<lambda>m i. fmul N (block_values N ns sz (fst m) ! i) (snd m)"
  let ?b = "map (?t m) [0..<nat sz]"
  let ?acc' = "map (\<lambda>i. fadd N (acc ! i) (?b ! i)) [0..<nat sz]"
  have sb: "scaled_block N ns sz m = Inr ?b"
    using assms Cons.prems(1) by (simp add: scaled_block_valid)
  have add: "np_add N acc ?b = Inr ?acc'"
    using Cons.prems(2) by (intro np_add_same_length) simp_all
  have "sum_blocks N ns sz ?acc' ms =
          Inr (map (\<lambda>i. foldl (fadd N) (?acc' ! i) (map (\<lambda>m. ?t m i) ms)) [0..<nat sz])"
    using Cons.prems(1) by (intro Cons.IH) simp_all
  also have "map (\<lambda>i. foldl (fadd N) (?acc' ! i) (map (\<lambda>m. ?t m i) ms)) [0..<nat sz] =
             map (\<lambda>i. foldl (fadd N) (acc ! i) (map (\<lambda>m. ?t m i) (m # ms))) [0..<nat sz]"
    by (rule map_cong) simp_all
  finally show ?case using sb add by simp
qed

lemma prefix_sum_valid:
  assumes "0 \<le> sz" and "noise ns \<noteq> []" and "\<forall>m \<in> set (p # ps). valid_seed (fst m)"
  shows "prefix_sum N ns sz p ps = Inr (weighted_sum N ns sz (p # ps))"
proof -
  let ?t = "\<lambda>m i. fmul N (block_values N ns sz (fst m) ! i) (snd m)"
  let ?b = "map (?t p) [0..<nat sz]"
  let ?acc = "map (fadd N (fzero N)) ?b"
  have sb: "scaled_block N ns sz p = Inr ?b"
    using assms by (simp add: scaled_block_valid)
  have "sum_blocks N ns sz ?acc ps =
          Inr (map (\<lambda>i. foldl (fadd N) (?acc ! i) (map (\<lambda>m. ?t m i) ps)) [0..<nat sz])"
    using assms by (intro sum_blocks_valid) simp_all
  also have "map (\<lambda>i. foldl (fadd N) (?acc ! i) (map (\<lambda>m. ?t m i) ps)) [0..<nat sz] =
             weighted_sum N ns sz (p # ps)"
    unfolding weighted_sum_def by (rule map_cong) simp_all
  finally show ?thesis using sb by (simp add: prefix_sum_def)
qed

lemma weighted_sum_snoc:
  "map (\<lambda>i. fadd N (weighted_sum N ns sz ms ! i)
               (fmul N (block_values N ns sz (fst m) ! i) (snd m))) [0..<nat sz] =
   weighted_sum N ns sz (ms @ [m])"
  unfolding weighted_sum_def by (rule map_cong) simp_all

lemma cumulative_block_additive_aux:
  assumes sz: "0 \<le> sz" and tbl: "noise ns \<noteq> []" and seeds: "\<forall>m \<in> set ms. valid_seed (fst m)"
    and law: "length ms = 1 \<longrightarrow> (\<forall>x. fadd N (fzero N) x = x)"
    and pfx: "\<And>c. 2 \<le> length ms \<Longrightarrow> map_of (cache ns) (butlast ms) = Some c \<Longrightarrow>
                c = weighted_sum N ns sz (butlast ms)"
  shows "fst (cumulative_block N ns sz ms) = Inr (weighted_sum N ns sz ms)"
proof (cases "(N, ns, sz, ms)" rule: cumulative_block.cases)
  case (1 N' ns' sz')
  then show ?thesis
    using sz by (simp add: zeros_def weighted_sum_def map_replicate_const)
next
  case (2 N' ns' sz' m)
  then have ms: "ms = [m]" by simp
  have "scaled_block N ns sz m =
          Inr (map (\<lambda>i. fmul N (block_values N ns sz (fst m) ! i) (snd m)) [0..<nat sz])"
    using sz tbl seeds ms by (simp add: scaled_block_valid)
  then show ?thesis using ms law by (simp add: weighted_sum_def)
next
  case (3 N' ns' sz' p q ms')
  then have ms: "ms = p # q # ms'" by simp
  let ?l = "last (q # ms')" and ?bl = "butlast (q # ms')"
  have split: "ms = (p # ?bl) @ [?l]"
    unfolding ms by (metis append_Cons append_butlast_last_id list.distinct(1))
  have key: "butlast ms = p # ?bl" using ms by simp
  let ?fb = "map (\<lambda>i. fmul N (block_values N ns sz (fst ?l) ! i) (snd ?l)) [0..<nat sz]"
  have vl: "valid_seed (fst ?l)" and vp: "\<forall>m \<in> set (p # ?bl). valid_seed (fst m)"
    using seeds split by (metis in_set_conv_decomp, metis UnCI set_append)
  have fb: "scaled_block N ns sz ?l = Inr ?fb"
    using sz tbl vl by (simp add: scaled_block_valid)
  have pr: "prefix_sum N ns sz p ?bl = Inr (weighted_sum N ns sz (p # ?bl))"
    using sz tbl vp by (rule prefix_sum_valid)
  have eff: "fst (cumulative_block N ns sz (p # q # ms')) =
               np_add N (weighted_sum N ns sz (p # ?bl)) ?fb"
  proof (cases "map_of (cache ns) (p # ?bl)")
    case None
    then show ?thesis using fb pr by (simp add: Let_def)
  next
    case (Some c)
    have "c = weighted_sum N ns sz (butlast ms)"
      using Some key ms by (intro pfx) simp_all
    then show ?thesis using fb Some key by (simp add: Let_def)
  qed
  have "np_add N (weighted_sum N ns sz (p # ?bl)) ?fb =
          Inr (map (\<lambda>i. fadd N (weighted_sum N ns sz (p # ?bl) ! i) (?fb ! i)) [0..<nat sz])"
    by (intro np_add_same_length) (simp_all add: weighted_sum_def)
  also have "map (\<lambda>i. fadd N (weighted_sum N ns sz (p # ?bl) ! i) (?fb ! i)) [0..<nat sz] =
             map (\<lambda>i. fadd N (weighted_sum N ns sz (p # ?bl) ! i)
                        (fmul N (block_values N ns sz (fst ?l) ! i) (snd ?l))) [0..<nat sz]"
    by (rule map_cong) simp_all
  also have "\<dots> = weighted_sum N ns sz ((p # ?bl) @ [?l])"
    by (rule weighted_sum_snoc)
  finally have "np_add N (weighted_sum N ns sz (p # ?bl)) ?fb = Inr (weighted_sum N ns sz ms)"
    using split by simp
  then show ?thesis unfolding ms eff using ms by simp
qed

text \<open>On a cache that is consistent for the size, so on every source that has only been
  asked for that size, a cached prefix holds its weighted sum.\<close>

lemma cache_ok_prefix:
  assumes "cache_ok N ns sz" and "0 \<le> sz" and "noise ns \<noteq> []"
    and "\<forall>m \<in> set ms. valid_seed (fst m)"
    and "2 \<le> length ms" and "map_of (cache ns) (butlast ms) = Some c"
  shows "c = weighted_sum N ns sz (butlast ms)"
proof -
  from assms(5) obtain p ps where bl: "butlast ms = p # ps"
    by (cases ms rule: rev_cases; cases "butlast ms") auto
  have "prefix_sum N ns sz p ps = Inr c"
    using assms(1,6) bl by (intro cache_ok_lookup) simp_all
  moreover have "\<forall>m \<in> set (p # ps). valid_seed (fst m)"
    using assms(4) bl by (metis in_set_butlastD)
  then have "prefix_sum N ns sz p ps = Inr (weighted_sum N ns sz (p # ps))"
    using assms(2,3) by (intro prefix_sum_valid)
  ultimately show ?thesis using bl by simp
qed

text \<open>
  \<^bold>\<open>C2\<close>, as the code has it. For every size \<open>n \<ge> 0\<close>, \<open>cumulative_block(n, [])\<close> is the
  vector of \<open>n\<close> zeros. For a chain \<open>m\<close> whose seeds \<open>RandomState\<close> accepts, on a
  non-empty table, \<open>cumulative_block(n, m)\<close> is the element-wise weighted sum of
  \<open>block(n, seed) * scale\<close> over the pairs of \<open>m\<close>, provided the cache does not hold the
  prefix of \<open>m\<close> or holds for it the weighted sum of the prefix at size \<open>n\<close>, as it does
  when the prefix was cached by a call of size \<open>n\<close>. (A prefix cached by a call of
  another size is added as it is, and the result is then not the weighted sum.) The code
  adds in the order of the chain, starting from zero, so no law of the element arithmetic
  is needed, except for a chain of one pair, which is returned without the leading zero:
  there zero must be a left identity of addition.
\<close>

theorem cumulative_block_weighted_sum:
  assumes "0 \<le> sz"
  shows "fst (cumulative_block N ns sz []) = Inr (replicate (nat sz) (fzero N)) \<and>
         (noise ns \<noteq> [] \<and> (\<forall>m \<in> set ms. valid_seed (fst m)) \<and>
          (length ms = 1 \<longrightarrow> (\<forall>x. fadd N (fzero N) x = x)) \<and>
          (\<forall>c. 2 \<le> length ms \<and> map_of (cache ns) (butlast ms) = Some c \<longrightarrow>
                c = weighted_sum N ns sz (butlast ms)) \<longrightarrow>
            fst (cumulative_block N ns sz ms) = Inr (weighted_sum N ns sz ms))"
  using assms cumulative_block_additive_aux [of sz ns ms N] by (simp add: zeros_def)

theorem cumulative_block_weighted_sum_witness:
  "(0::int) \<le> 4 \<and> noise demo_cached \<noteq> [] \<and> valid_seed 1 \<and> valid_seed 5 \<and>
   map_of (cache demo_cached) [(1, 1)] = Some [8, 9, 7, 8] \<and>
   weighted_sum int_numpy demo_cached 4 [(1, 1)] = [8, 9, 7, 8] \<and>
   fst (cumulative_block int_numpy demo_cached 4 []) = Inr [0, 0, 0, 0] \<and>
   weighted_sum int_numpy demo_cached 4 [(1, 1), (5, 3)] = [35, 30, 31, 35] \<and>
   fst (cumulative_block int_numpy demo_cached 4 [(1, 1), (5, 3)]) = Inr [35, 30, 31, 35]"
proof -
  let ?ms = "[(1, 1), (5, 3::int)]"
  have z: "(0::int) \<le> 4" by simp
  have t: "noise demo_cached \<noteq> []" by (simp add: demo_cached_def)
  have v: "valid_seed 1" "valid_seed 5" by (simp_all add: valid_seed_def)
  then have vs: "\<forall>m \<in> set ?ms. valid_seed (fst m)" by simp
  have l: "length ?ms = 1 \<longrightarrow> (\<forall>x. fadd int_numpy (fzero int_numpy) x = x)" by simp
  have k: "map_of (cache demo_cached) [(1, 1)] = Some [8, 9, 7, 8]"
    by (simp add: demo_cached_def)
  have w1: "weighted_sum int_numpy demo_cached 4 [(1, 1)] = [8, 9, 7, 8]"
    by (simp add: weighted_sum_def block_values_def demo_defs eval_defs)
  have bl: "butlast ?ms = [(1, 1)]" by simp
  have pf: "\<forall>c. 2 \<le> length ?ms \<and> map_of (cache demo_cached) (butlast ?ms) = Some c \<longrightarrow>
              c = weighted_sum int_numpy demo_cached 4 (butlast ?ms)"
    unfolding bl k w1 by simp
  have w: "weighted_sum int_numpy demo_cached 4 ?ms = [35, 30, 31, 35]"
    by (simp add: weighted_sum_def block_values_def demo_defs eval_defs)
  have r: "replicate (nat 4) (fzero int_numpy) = [0, 0, 0, 0]"
    by (simp add: int_numpy_def eval_nat_numeral)
  note th = cumulative_block_weighted_sum [OF z, of int_numpy demo_cached ?ms]
  from th have "fst (cumulative_block int_numpy demo_cached 4 []) =
      Inr (replicate (nat 4) (fzero int_numpy))" by (rule conjunct1)
  then have a: "fst (cumulative_block int_numpy demo_cached 4 []) = Inr [0, 0, 0, 0]"
    by (simp only: r)
  have "fst (cumulative_block int_numpy demo_cached 4 ?ms) =
      Inr (weighted_sum int_numpy demo_cached 4 ?ms)"
    by (rule mp [OF conjunct2 [OF th]]) (intro conjI t vs l pf)
  then have b: "fst (cumulative_block int_numpy demo_cached 4 ?ms) = Inr [35, 30, 31, 35]"
    by (simp only: w)
  show ?thesis by (intro conjI z t v k w1 a w b)
qed

text \<open>The claim as the specification states it fails for a prefix cached by a call of
  another size: after a call of size 1, the call of size 4 under the same prefix adds the
  one cached element to every element of the final block.\<close>

theorem stale_prefix_is_not_weighted_sum:
  "fst (cumulative_block int_numpy
          (snd (cumulative_block int_numpy demo_source 1 [(1, 1), (2, 1)]))
          4 [(1, 1), (5, 2)]) = Inr [26, 22, 24, 26] \<and>
   weighted_sum int_numpy
     (snd (cumulative_block int_numpy demo_source 1 [(1, 1), (2, 1)]))
     4 [(1, 1), (5, 2)] = [26, 23, 23, 26]"
  unfolding demo_cached_one_reached snd_conv
  by (simp add: weighted_sum_def block_values_def demo_defs eval_defs)

subsection \<open>Entering and leaving the scope\<close>

lemma add_noise_shapes:
  "add_noise N olds nz = Inr news \<Longrightarrow> map shape news = map shape olds"
  by (induction olds arbitrary: nz news)
     (auto simp: Let_def tensor_add_def split: sum.splits)

lemma add_noise_length: "add_noise N olds nz = Inr news \<Longrightarrow> length news = length olds"
  using add_noise_shapes [of N olds nz news] by (metis length_map)

lemma set_values_ok:
  assumes "map shape vs = variables (adder w)"
  shows "set_values w (Some vs) = (Inr (), w\<lparr>store := vs\<rparr>)"
proof -
  have "length vs = length (variables (adder w))" using assms by (metis length_map)
  with assms show ?thesis by (simp add: set_values_def Let_def)
qed

lemma enter_fail_store:
  assumes "length (store w) = length (variables (adder w))"
    and "fst (NoiseAdder_enter N w) = Inl e"
  shows "store (snd (NoiseAdder_enter N w)) = store w"
proof -
  have "store (snd (set_values w1 (Some news))) = store w"
    if "add_noise N (store w) nz = Inr news" and "store w1 = store w"
      and "variables (adder w1) = variables (adder w)"
      and "fst (set_values w1 (Some news)) = Inl e" for w1 news nz
  proof -
    have "length news = length (variables (adder w1))"
      using add_noise_length [OF that(1)] assms(1) that(3) by simp
    then show ?thesis
      using that(2,4) by (auto simp: set_values_def Let_def split: if_splits)
  qed
  note sv = this
  show ?thesis
  proof (cases "sum_sizes N (variables (adder w))")
    case (Inl e')
    then show ?thesis by (simp add: NoiseAdder_enter_def)
  next
    case (Inr n)
    obtain r src where
      cb: "cumulative_block N (source w) (int n) (chain_of (seeds (adder w))) = (r, src)"
      by (cases "cumulative_block N (source w) (int n) (chain_of (seeds (adder w)))")
    show ?thesis
    proof (cases r)
      case (Inl e')
      then show ?thesis using Inr cb by (simp add: NoiseAdder_enter_def)
    next
      case nz: (Inr nz)
      let ?w1 = "w\<lparr>source := src, adder := (adder w)\<lparr>old_vals := Some (store w)\<rparr>\<rparr>"
      show ?thesis
      proof (cases "add_noise N (store w) nz")
        case (Inl e')
        then show ?thesis using Inr cb nz by (simp add: NoiseAdder_enter_def)
      next
        case news: (Inr news)
        have eq: "NoiseAdder_enter N w = set_values ?w1 (Some news)"
          using Inr cb nz news by (simp add: NoiseAdder_enter_def)
        show ?thesis
          unfolding eq using assms(2) by (intro sv [OF news]) (simp_all add: eq)
      qed
    qed
  qed
qed

lemma enter_ok:
  assumes "NoiseAdder_enter N w = (Inr u, w1)"
  shows "old_vals (adder w1) = Some (store w) \<and> variables (adder w1) = variables (adder w)"
  using assms
  by (auto simp: NoiseAdder_enter_def Let_def set_values_def
      split: sum.splits prod.splits if_splits)

text \<open>
  \<^bold>\<open>C7.\<close> When the noise cannot be computed on entry, nothing has been written: if the
  total size cannot be computed \<open>__enter__\<close> raises and leaves everything as it was,
  and if \<open>cumulative_block\<close> raises then \<open>__enter__\<close> raises the same exception and
  the store and the adder's own fields are as before.
\<close>

theorem enter_noise_failure:
  "(sum_sizes N (variables (adder w)) = Inl e \<longrightarrow> NoiseAdder_enter N w = (Inl e, w)) \<and>
   (sum_sizes N (variables (adder w)) = Inr n \<and>
    fst (cumulative_block N (source w) (int n) (chain_of (seeds (adder w)))) = Inl e \<longrightarrow>
      fst (NoiseAdder_enter N w) = Inl e \<and>
      store (snd (NoiseAdder_enter N w)) = store w \<and>
      adder (snd (NoiseAdder_enter N w)) = adder w)"
  by (auto simp: NoiseAdder_enter_def split: sum.splits prod.splits)

theorem enter_noise_failure_witness:
  "NoiseAdder_enter failing_numpy demo_seeded = (Inl TypeError, demo_seeded) \<and>
   sum_sizes int_numpy (variables (adder (NoiseAdder_seed demo_world [(- 1, 1)]))) = Inr 4 \<and>
   fst (NoiseAdder_enter int_numpy (NoiseAdder_seed demo_world [(- 1, 1)])) = Inl ValueError \<and>
   store (snd (NoiseAdder_enter int_numpy (NoiseAdder_seed demo_world [(- 1, 1)]))) =
     store demo_world"
proof -
  let ?w = "NoiseAdder_seed demo_world [(- 1, 1)]"
  have s1: "sum_sizes failing_numpy (variables (adder demo_seeded)) = Inl TypeError"
    by (simp add: demo_defs failing_numpy_def)
  have s2: "sum_sizes int_numpy (variables (adder ?w)) = Inr 4"
    by (simp add: demo_defs int_numpy_def)
  have c2: "fst (cumulative_block int_numpy (source ?w) (int 4) (chain_of (seeds (adder ?w))))
      = Inl ValueError"
    by (simp add: demo_defs chain_of_def scaled_block_def block_def valid_seed_def)
  have st: "store ?w = store demo_world" by (simp add: NoiseAdder_seed_def)
  show ?thesis
    using s1 s2 c2 st enter_noise_failure [of failing_numpy demo_seeded TypeError 4]
      enter_noise_failure [of int_numpy ?w ValueError 4]
    by simp
qed

text \<open>
  \<^bold>\<open>C1.\<close> Round trip. Let the store hold, for each variable, a value of the variable's
  static shape, and let the body leave the adder's own fields alone (it does not enter
  the same adder again). Then after \<open>with adder.seed(sds): body\<close> the store is what it
  was before, whatever the body did to the store, whether the body returned or raised,
  and also when \<open>__enter__\<close> raised.
\<close>

theorem with_noise_restores:
  assumes fits: "map shape (store w) = variables (adder w)"
    and body: "\<And>w'. adder (snd (body w')) = adder w'"
  shows "store (snd (with_noise N sds body w)) = store w"
proof (cases "NoiseAdder_enter N (NoiseAdder_seed w sds)")
  case (Pair r w1)
  let ?w0 = "NoiseAdder_seed w sds"
  have st0: "store ?w0 = store w" "variables (adder ?w0) = variables (adder w)"
    by (simp_all add: NoiseAdder_seed_def)
  show ?thesis
  proof (cases r)
    case (Inl e)
    have "length (store ?w0) = length (variables (adder ?w0))"
      using fits st0 by (metis length_map)
    with Inl have "store w1 = store w"
      using enter_fail_store [of ?w0 N e] Pair st0 by simp
    then show ?thesis using Pair Inl by (simp add: with_noise_def)
  next
    case (Inr u)
    obtain rb w2 where b: "body w1 = (rb, w2)" by (cases "body w1")
    have a2: "adder w2 = adder w1" using body [of w1] b by simp
    have "old_vals (adder w1) = Some (store w)" "variables (adder w1) = variables (adder w)"
      using enter_ok [of N ?w0 u w1] Pair Inr st0 by simp_all
    then have "NoiseAdder_exit w2 = (Inr (), w2\<lparr>store := store w\<rparr>)"
      using a2 fits by (simp add: NoiseAdder_exit_def set_values_ok)
    then show ?thesis using Pair Inr b by (simp add: with_noise_def)
  qed
qed

theorem with_noise_restores_witness:
  "map shape (store demo_world) = variables (adder demo_world) \<and>
   store (snd (with_noise int_numpy [(1, 1)] demo_body demo_world)) =
     [\<lparr>shape = [2], data = [100, 200]\<rparr>, \<lparr>shape = [2], data = [300, 400]\<rparr>]"
proof -
  have fits: "map shape (store demo_world) = variables (adder demo_world)"
    by (simp add: demo_defs)
  have body: "\<And>w'. adder (snd (demo_body w')) = adder w'"
    by (simp add: demo_body_def)
  have "store demo_world =
      [\<lparr>shape = [2], data = [100, 200]\<rparr>, \<lparr>shape = [2], data = [300, 400]\<rparr>]"
    by (simp add: demo_defs)
  then show ?thesis
    using fits with_noise_restores [of demo_world demo_body int_numpy "[(1, 1)]", OF fits body]
    by simp
qed

subsection \<open>What the scope sees\<close>

text \<open>When \<open>np.prod\<close> raises on the first variable, or returns what cannot be added to
  0, \<open>__enter__\<close> raises at its first line and leaves everything as it was.\<close>

lemma enter_raises_at_size:
  "variables (adder w) = sh # shs \<Longrightarrow> prod_gen N sh = Inl e \<Longrightarrow>
   NoiseAdder_enter N w = (Inl e, w)"
  by (simp add: NoiseAdder_enter_def)

text \<open>
  \<^bold>\<open>C6.\<close> The specification has every array inside the scope equal its value of before
  plus its chunk of the noise vector. With numpy as it is, the scope over two variables
  of shape \<open>(2,)\<close> is never entered: \<open>np.prod(x.value for x in v.get_shape())\<close>
  returns the generator, the sum over the variables computes \<open>0 + generator\<close>, and
  \<open>__enter__\<close> raises TypeError before it asks for noise or writes to the store; a
  body that would return at once does not run. The same holds over any list of
  variables that is not empty (\<open>enter_raises_at_size\<close>).
\<close>

theorem enter_raises_type_error:
  "sum_sizes failing_numpy (variables (adder demo_seeded)) = Inl TypeError \<and>
   NoiseAdder_enter failing_numpy demo_seeded = (Inl TypeError, demo_seeded) \<and>
   with_noise failing_numpy [(1, 1)] demo_return demo_world = (Inl TypeError, demo_seeded)"
  by (simp add: with_noise_def NoiseAdder_enter_def demo_defs failing_numpy_def)

text \<open>The lines after the first do what the specification says: where the size is the sum
  of the products of the dimensions, as the first line is written to compute, the loop
  adds to each array its contiguous chunk of the noise vector.\<close>

lemma sum_sizes_prod:
  "(\<And>dims. prod_gen N dims = Inr (prod_list dims)) \<Longrightarrow>
   sum_sizes N shs = Inr (sum_list (map prod_list shs))"
  by (induction shs) simp_all

lemma add_noise_nth:
  "add_noise N olds nz = Inr news \<Longrightarrow> i < length olds \<Longrightarrow>
   news ! i = \<lparr>shape = shape (olds ! i),
               data = map2 (fadd N) (data (olds ! i)) (noise_chunk (map shape olds) nz i)\<rparr>
   \<and> length (noise_chunk (map shape olds) nz i) = prod_list (shape (olds ! i))"
proof (induction olds arbitrary: nz news i)
  case Nil
  then show ?case by simp
next
  case (Cons t ts)
  let ?k = "prod_list (shape t)"
  from Cons.prems(1) obtain rest where
    len: "length (take ?k nz) = ?k" and
    rest: "add_noise N ts (drop ?k nz) = Inr rest" and
    news: "news = tensor_add N t \<lparr>shape = shape t, data = take ?k nz\<rparr> # rest"
    by (auto simp: Let_def reshape_def split: sum.splits if_splits)
  show ?case
  proof (cases i)
    case 0
    then show ?thesis using news len by (simp add: noise_chunk_def tensor_add_def)
  next
    case (Suc j)
    then have j: "j < length ts" using Cons.prems(2) by simp
    have "noise_chunk (map shape (t # ts)) nz (Suc j) = noise_chunk (map shape ts) (drop ?k nz) j"
      by (simp add: noise_chunk_def add.commute)
    then show ?thesis using Cons.IH [OF rest j] news Suc by simp
  qed
qed

text \<open>Let the store hold, for each variable, a value of the variable's static shape, and
  let \<open>prod_gen\<close> give the product of the dimensions. If \<open>__enter__\<close> returns, then
  \<open>cumulative_block(total_size, chain)\<close> returned a vector, with \<open>total_size\<close> the sum
  of the element counts, and every array \<open>i\<close> has its shape of before and is its value
  of before plus, element by element, the \<open>i\<close>-th contiguous chunk of that vector, a
  chunk of as many elements as the array has.\<close>

lemma enter_perturbs:
  assumes fits: "map shape (store w) = variables (adder w)"
    and lib: "\<And>dims. prod_gen N dims = Inr (prod_list dims)"
    and ok: "NoiseAdder_enter N w = (Inr u, w')"
  shows "\<exists>nz. fst (cumulative_block N (source w)
                   (int (sum_list (map prod_list (variables (adder w)))))
                   (chain_of (seeds (adder w)))) = Inr nz \<and>
           length (store w') = length (store w) \<and>
           (\<forall>i < length (store w).
              shape (store w' ! i) = shape (store w ! i) \<and>
              data (store w' ! i) =
                map2 (fadd N) (data (store w ! i)) (noise_chunk (variables (adder w)) nz i) \<and>
              length (noise_chunk (variables (adder w)) nz i) = prod_list (shape (store w ! i)))"
proof -
  let ?n = "sum_list (map prod_list (variables (adder w)))"
  have sz: "sum_sizes N (variables (adder w)) = Inr ?n"
    using lib by (rule sum_sizes_prod)
  obtain r src where
    cb: "cumulative_block N (source w) (int ?n) (chain_of (seeds (adder w))) = (r, src)"
    by (cases "cumulative_block N (source w) (int ?n) (chain_of (seeds (adder w)))")
  from ok sz cb obtain nz where r: "r = Inr nz"
    by (cases r) (auto simp: NoiseAdder_enter_def)
  let ?w1 = "w\<lparr>source := src, adder := (adder w)\<lparr>old_vals := Some (store w)\<rparr>\<rparr>"
  from ok sz cb r obtain news where
    an: "add_noise N (store w) nz = Inr news" and
    sv: "set_values ?w1 (Some news) = (Inr u, w')"
    by (auto simp: NoiseAdder_enter_def Let_def split: sum.splits)
  have shp: "map shape news = variables (adder ?w1)"
    using add_noise_shapes [OF an] fits by simp
  have w': "w' = ?w1\<lparr>store := news\<rparr>"
    using sv set_values_ok [OF shp] by simp
  have len: "length news = length (store w)" using an by (rule add_noise_length)
  have "\<forall>i < length (store w).
          shape (store w' ! i) = shape (store w ! i) \<and>
          data (store w' ! i) =
            map2 (fadd N) (data (store w ! i)) (noise_chunk (variables (adder w)) nz i) \<and>
          length (noise_chunk (variables (adder w)) nz i) = prod_list (shape (store w ! i))"
    using add_noise_nth [OF an] fits w' by simp
  then show ?thesis using cb r len w' by auto
qed

lemma enter_perturbs_example:
  "map shape (store demo_seeded) = variables (adder demo_seeded) \<and>
   fst (NoiseAdder_enter int_numpy demo_seeded) = Inr () \<and>
   noise_chunk [[2], [2]] [8, 9, 7, 8 :: int] 1 = [7, 8] \<and>
   data (store (snd (NoiseAdder_enter int_numpy demo_seeded)) ! 1) = map2 (+) [300, 400] [7, 8]"
proof -
  let ?w' = "snd (NoiseAdder_enter int_numpy demo_seeded)"
  have fits: "map shape (store demo_seeded) = variables (adder demo_seeded)"
    by (simp add: demo_defs)
  have lib: "\<And>dims. prod_gen int_numpy dims = Inr (prod_list dims)"
    by (simp add: int_numpy_def)
  have ok: "NoiseAdder_enter int_numpy demo_seeded = (Inr (), ?w')"
    by (simp add: demo_enter)
  have cb: "fst (cumulative_block int_numpy (source demo_seeded)
      (int (sum_list (map prod_list (variables (adder demo_seeded)))))
      (chain_of (seeds (adder demo_seeded)))) = Inr [8, 9, 7, 8]"
    by (simp add: demo_defs chain_of_def eval_defs)
  have ch: "noise_chunk [[2], [2]] [8, 9, 7, 8] 1 = [7, 8::int]"
    by (simp add: noise_chunk_def)
  from enter_perturbs [OF fits lib ok] cb
  have "\<forall>i < length (store demo_seeded).
          data (store ?w' ! i) =
            map2 (fadd int_numpy) (data (store demo_seeded ! i))
              (noise_chunk (variables (adder demo_seeded)) [8, 9, 7, 8] i)"
    by auto
  then have "data (store ?w' ! 1) =
      map2 (fadd int_numpy) (data (store demo_seeded ! 1))
        (noise_chunk (variables (adder demo_seeded)) [8, 9, 7, 8] 1)"
    by (simp add: demo_defs)
  then have "data (store ?w' ! 1) = map2 (+) [300, 400] [7, 8]"
    using ch by (simp add: demo_defs int_numpy_def)
  moreover have "fst (NoiseAdder_enter int_numpy demo_seeded) = Inr ()"
    by (simp add: demo_enter)
  ultimately show ?thesis using fits ch by simp
qed

end
